theory Spec2Isabelle
  imports
    Main
    "HOL-Library.Word"
    "HOL-Library.List_Lexorder"
    "HOL-Library.Char_ord"
begin

section \<open>The convergent versioned map (utils/vmap.go)\<close>

text \<open>
  Go's \<open>int64\<close> is a 64-bit word read as two's complement: \<open>+\<close> and \<open>-\<close> wrap, and the
  comparisons of the source are the signed ones. Go compares strings byte by byte, which is
  the lexicographic order on \<open>char list\<close> with characters ordered by their code.
\<close>

type_synonym int64 = "64 word"

definition lt64 :: "int64 \<Rightarrow> int64 \<Rightarrow> bool" where
  "lt64 a b = (sint a < sint b)"

definition ge64 :: "int64 \<Rightarrow> int64 \<Rightarrow> bool" where
  "ge64 a b = (sint b \<le> sint a)"

text \<open>\<open>type mapEntry struct { value string; version int64 }\<close>\<close>

record mapEntry =
  val :: string
  version :: int64

text \<open>
  \<open>type VersionedMap struct { values map[string][]mapEntry }\<close> (the field is \<open>vmap_values\<close> here). A Go map is a finite
  partial function; a \<open>range\<close> over it visits every key once, in an order the language
  leaves open. The functions below that range over a map take that order as a list.
\<close>

record VersionedMap =
  vmap_values :: "string \<rightharpoonup> mapEntry list"

definition range_order :: "('k \<rightharpoonup> 'v) \<Rightarrow> 'k list \<Rightarrow> bool" where
  "range_order m ks = (distinct ks \<and> set ks = dom m)"

definition NewVersionedMap :: VersionedMap where
  "NewVersionedMap = \<lparr>vmap_values = Map.empty\<rparr>"

text \<open>\<open>v.values[key]\<close>: the nil slice when the key is absent.\<close>

definition lookup :: "VersionedMap \<Rightarrow> string \<Rightarrow> mapEntry list" where
  "lookup v key = (case vmap_values v key of None \<Rightarrow> [] | Some es \<Rightarrow> es)"

fun currentVersion_loop :: "mapEntry list \<Rightarrow> int64 \<Rightarrow> int64" where
  "currentVersion_loop [] next = next"
| "currentVersion_loop (e # es) next =
     currentVersion_loop es (if lt64 next (version e) then version e else next)"

definition currentVersion :: "VersionedMap \<Rightarrow> string \<Rightarrow> int64" where
  "currentVersion v key = currentVersion_loop (lookup v key) 0"

definition nextVersion :: "VersionedMap \<Rightarrow> string \<Rightarrow> int64" where
  "nextVersion v key = currentVersion v key + 1"

definition SetVersion :: "VersionedMap \<Rightarrow> string \<Rightarrow> string \<Rightarrow> int64 \<Rightarrow> VersionedMap" where
  "SetVersion v key value version' =
     v\<lparr>vmap_values := (vmap_values v)(key \<mapsto> lookup v key @ [\<lparr>val = value, version = version'\<rparr>])\<rparr>"

definition UnSetVersion :: "VersionedMap \<Rightarrow> string \<Rightarrow> int64 \<Rightarrow> VersionedMap" where
  "UnSetVersion v key version' =
     v\<lparr>vmap_values := (vmap_values v)(key \<mapsto> lookup v key @ [\<lparr>val = [], version = version'\<rparr>])\<rparr>"

definition Set :: "VersionedMap \<Rightarrow> string \<Rightarrow> string \<Rightarrow> VersionedMap" where
  "Set v key value = SetVersion v key value (nextVersion v key)"

definition UnSet :: "VersionedMap \<Rightarrow> string \<Rightarrow> VersionedMap" where
  "UnSet v key = UnSetVersion v key (nextVersion v key)"

text \<open>
  The body of the loop of \<open>Get\<close>: two \<open>if\<close>s in sequence, the second reading the
  \<open>maxEntry\<close> the first may have replaced.
\<close>

definition Get_step :: "mapEntry \<Rightarrow> mapEntry \<Rightarrow> mapEntry" where
  "Get_step entry maxEntry =
     (let maxEntry1 = (if lt64 (version maxEntry) (version entry) then entry else maxEntry)
      in if version entry = version maxEntry1 \<and> val maxEntry1 < val entry
         then entry else maxEntry1)"

fun Get_loop :: "mapEntry list \<Rightarrow> mapEntry \<Rightarrow> mapEntry" where
  "Get_loop [] maxEntry = maxEntry"
| "Get_loop (entry # entries) maxEntry = Get_loop entries (Get_step entry maxEntry)"

definition Get :: "VersionedMap \<Rightarrow> string \<Rightarrow> string" where
  "Get v key = val (Get_loop (lookup v key) \<lparr>val = [], version = 0\<rparr>)"

text \<open>\<open>Keys\<close> appends every key in the order the range visits them.\<close>

fun Keys_loop :: "string list \<Rightarrow> string list \<Rightarrow> string list" where
  "Keys_loop [] keys = keys"
| "Keys_loop (k # ks) keys = Keys_loop ks (keys @ [k])"

definition Keys :: "string list \<Rightarrow> VersionedMap \<Rightarrow> string list" where
  "Keys ks v = Keys_loop ks []"

fun LatestVersion_inner :: "mapEntry list \<Rightarrow> int64 \<Rightarrow> int64" where
  "LatestVersion_inner [] latest = latest"
| "LatestVersion_inner (e # es) latest =
     LatestVersion_inner es (if lt64 latest (version e) then version e else latest)"

fun LatestVersion_loop :: "string list \<Rightarrow> VersionedMap \<Rightarrow> int64 \<Rightarrow> int64" where
  "LatestVersion_loop [] v latest = latest"
| "LatestVersion_loop (k # ks) v latest =
     LatestVersion_loop ks v (LatestVersion_inner (lookup v k) latest)"

definition LatestVersion :: "string list \<Rightarrow> VersionedMap \<Rightarrow> int64" where
  "LatestVersion ks v = LatestVersion_loop ks v 0"

text \<open>
  \<open>Merge\<close> ranges over \<open>other.values\<close> and appends each slice to the receiver's. When the
  receiver and \<open>other\<close> are the same map, every key is still written once, at its own
  iteration, so the slice read for it is the one the call started with.
\<close>

fun Merge_loop :: "string list \<Rightarrow> VersionedMap \<Rightarrow> VersionedMap \<Rightarrow> VersionedMap" where
  "Merge_loop [] other v = v"
| "Merge_loop (k # ks) other v =
     Merge_loop ks other (v\<lparr>vmap_values := (vmap_values v)(k \<mapsto> lookup v k @ lookup other k)\<rparr>)"

definition Merge :: "string list \<Rightarrow> VersionedMap \<Rightarrow> VersionedMap \<Rightarrow> VersionedMap" where
  "Merge ks v other = Merge_loop ks other v"

text \<open>The order \<open>Get\<close> maximises: by version first, by value among equal versions.\<close>

definition entry_le :: "mapEntry \<Rightarrow> mapEntry \<Rightarrow> bool" where
  "entry_le a b =
     (sint (version a) < sint (version b) \<or> (version a = version b \<and> val a \<le> val b))"

text \<open>Two maps hold the same entries when every key has the same entries in both, in any
  order and any number of copies.\<close>

definition same_entries :: "VersionedMap \<Rightarrow> VersionedMap \<Rightarrow> bool" where
  "same_entries a b = (\<forall>k. set (lookup a k) = set (lookup b k))"

subsection \<open>The wire format\<close>

text \<open>
  \<open>strconv.FormatInt(i, 10)\<close> of the Go standard library: the decimal digits of the
  magnitude, most significant first, after a minus sign when the number is negative.
\<close>

definition digit_char :: "nat \<Rightarrow> char" where
  "digit_char d = ''0123456789'' ! d"

function formatBits :: "nat \<Rightarrow> string" where
  "formatBits n = (if n < 10 then [digit_char n] else formatBits (n div 10) @ [digit_char (n mod 10)])"
  by pat_completeness auto
termination
  by (relation "measure id") auto

declare formatBits.simps [simp del]

definition FormatInt :: "int64 \<Rightarrow> string" where
  "FormatInt i =
     (if sint i < 0 then CHR ''-'' # formatBits (nat (- sint i)) else formatBits (nat (sint i)))"

text \<open>
  \<open>strconv.ParseInt(s, 10, 64)\<close> of the Go standard library: an optional sign, then
  \<open>ParseUint\<close> on the rest (at least one character, decimal digits only, the value below
  \<open>2^64\<close>), then the range check of the signed result.
\<close>

datatype NumError = ErrSyntax | ErrRange

fun ParseUint_loop :: "string \<Rightarrow> nat \<Rightarrow> NumError + nat" where
  "ParseUint_loop [] n = Inr n"
| "ParseUint_loop (c # cs) n =
     (if CHR ''0'' \<le> c \<and> c \<le> CHR ''9''
      then (let n1 = n * 10 + (of_char c - 48)
            in if 2 ^ 64 \<le> n1 then Inl ErrRange else ParseUint_loop cs n1)
      else Inl ErrSyntax)"

definition ParseUint :: "string \<Rightarrow> NumError + nat" where
  "ParseUint s = (if s = [] then Inl ErrSyntax else ParseUint_loop s 0)"

definition ParseInt :: "string \<Rightarrow> NumError + int64" where
  "ParseInt s =
     (if s = [] then Inl ErrSyntax
      else let neg = (hd s = CHR ''-'');
               s1 = (if hd s = CHR ''+'' \<or> hd s = CHR ''-'' then tl s else s)
           in case ParseUint s1 of
                Inl ErrSyntax \<Rightarrow> Inl ErrSyntax
              | Inl ErrRange \<Rightarrow> Inl ErrRange
              | Inr un \<Rightarrow>
                  if \<not> neg \<and> 2 ^ 63 \<le> un then Inl ErrRange
                  else if neg \<and> 2 ^ 63 < un then Inl ErrRange
                  else Inr (if neg then - word_of_nat un else word_of_nat un))"

text \<open>\<open>strings.Join(parts, sep)\<close> and \<open>strings.Split(s, sep)\<close> for a one-byte separator.\<close>

fun Join :: "string list \<Rightarrow> string \<Rightarrow> string" where
  "Join [] sep = []"
| "Join [x] sep = x"
| "Join (x # y # zs) sep = x @ sep @ Join (y # zs) sep"

fun Split :: "string \<Rightarrow> char \<Rightarrow> string list" where
  "Split [] sep = [[]]"
| "Split (c # cs) sep =
     (if c = sep then [] # Split cs sep
      else (case Split cs sep of [] \<Rightarrow> [[c]] | p # ps \<Rightarrow> (c # p) # ps))"

text \<open>The key of the wire record of one entry, as both marshalling functions compute it.\<close>

definition mapKey :: "string \<Rightarrow> mapEntry \<Rightarrow> string" where
  "mapKey key e =
     (let op = (if val e = [] then ''u'' else ''s'')
      in Join [key, op, FormatInt (version e)] '':'')"

fun MarshalMap_inner :: "string \<Rightarrow> mapEntry list \<Rightarrow> (string \<rightharpoonup> string) \<Rightarrow> (string \<rightharpoonup> string)" where
  "MarshalMap_inner key [] result = result"
| "MarshalMap_inner key (e # es) result = MarshalMap_inner key es (result(mapKey key e \<mapsto> val e))"

fun MarshalMap_loop :: "string list \<Rightarrow> VersionedMap \<Rightarrow> (string \<rightharpoonup> string) \<Rightarrow> (string \<rightharpoonup> string)" where
  "MarshalMap_loop [] v result = result"
| "MarshalMap_loop (key # ks) v result =
     MarshalMap_loop ks v (MarshalMap_inner key (lookup v key) result)"

definition MarshalMap :: "string list \<Rightarrow> VersionedMap \<Rightarrow> (string \<rightharpoonup> string)" where
  "MarshalMap ks v = MarshalMap_loop ks v Map.empty"

text \<open>
  \<open>UnmarshalMap\<close> ranges over the serialized map. It reads \<open>parts[2]\<close> first, which panics
  when the key has fewer than two separators; a version that does not parse returns the
  error with the entries applied so far left in the receiver.
\<close>

datatype unmarshal_result = ReturnsNil | ReturnsErr NumError | PanicsIndexOutOfRange

fun UnmarshalMap_loop ::
  "string list \<Rightarrow> (string \<rightharpoonup> string) \<Rightarrow> VersionedMap \<Rightarrow> VersionedMap \<times> unmarshal_result" where
  "UnmarshalMap_loop [] serialized v = (v, ReturnsNil)"
| "UnmarshalMap_loop (key # ks) serialized v =
     (let value = (case serialized key of None \<Rightarrow> [] | Some x \<Rightarrow> x);
          parts = Split key CHR '':''
      in if length parts < 3 then (v, PanicsIndexOutOfRange)
         else (case ParseInt (parts ! 2) of
                 Inl err \<Rightarrow> (v, ReturnsErr err)
               | Inr version' \<Rightarrow>
                   UnmarshalMap_loop ks serialized
                     (if parts ! 1 = ''s'' then SetVersion v (parts ! 0) value version'
                      else UnSetVersion v (parts ! 0) version')))"

definition UnmarshalMap ::
  "string list \<Rightarrow> VersionedMap \<Rightarrow> (string \<rightharpoonup> string) \<Rightarrow> VersionedMap \<times> unmarshal_result" where
  "UnmarshalMap ws v serialized = UnmarshalMap_loop ws serialized v"

text \<open>
  \<open>MarshalExpiredMap\<close> only reads the receiver; the model returns the receiver as the call
  leaves it together with the result. \<open>currentVersion - age\<close> is an \<open>int64\<close> subtraction.
\<close>

fun MarshalExpiredMap_inner ::
  "string \<Rightarrow> int64 \<Rightarrow> mapEntry list \<Rightarrow> (string \<rightharpoonup> string) \<Rightarrow> (string \<rightharpoonup> string)" where
  "MarshalExpiredMap_inner key bound [] result = result"
| "MarshalExpiredMap_inner key bound (e # es) result =
     (if ge64 (version e) bound then MarshalExpiredMap_inner key bound es result
      else MarshalExpiredMap_inner key bound es (result(mapKey key e \<mapsto> val e)))"

fun MarshalExpiredMap_loop ::
  "string list \<Rightarrow> int64 \<Rightarrow> VersionedMap \<times> (string \<rightharpoonup> string) \<Rightarrow> VersionedMap \<times> (string \<rightharpoonup> string)" where
  "MarshalExpiredMap_loop [] age (v, result) = (v, result)"
| "MarshalExpiredMap_loop (key # ks) age (v, result) =
     MarshalExpiredMap_loop ks age
       (v, MarshalExpiredMap_inner key (currentVersion v key - age) (lookup v key) result)"

definition MarshalExpiredMap ::
  "string list \<Rightarrow> VersionedMap \<Rightarrow> int64 \<Rightarrow> VersionedMap \<times> (string \<rightharpoonup> string)" where
  "MarshalExpiredMap ks v age = MarshalExpiredMap_loop ks age (v, Map.empty)"

section \<open>Resolution of a key's current value\<close>

lemma sint_eq_iff64: "(sint (a::int64) = sint b) = (a = b)"
  by (auto intro: signed_word_eqI)

lemma entry_le_refl: "entry_le a a"
  by (simp add: entry_le_def)

lemma entry_le_trans: "entry_le a b \<Longrightarrow> entry_le b c \<Longrightarrow> entry_le a c"
  by (auto simp: entry_le_def)

lemma entry_le_total: "entry_le a b \<or> entry_le b a"
  using sint_eq_iff64 [of "version a" "version b"] by (auto simp: entry_le_def)

lemma entry_le_antisym: "entry_le a b \<Longrightarrow> entry_le b a \<Longrightarrow> a = (b::mapEntry)"
  by (auto simp: entry_le_def)

text \<open>One pass of the loop body keeps the larger of the two entries.\<close>

lemma Get_step_max: "Get_step e m = (if entry_le m e then e else m)"
  by (auto simp: Get_step_def entry_le_def lt64_def Let_def)

lemma Get_loop_mem: "Get_loop es m \<in> insert m (set es)"
  by (induction es arbitrary: m) (auto simp: Get_step_max)

lemma Get_loop_ge_init: "entry_le m (Get_loop es m)"
proof (induction es arbitrary: m)
  case Nil
  show ?case by (simp add: entry_le_refl)
next
  case (Cons e es)
  have "entry_le m (Get_step e m)"
    by (simp add: Get_step_max entry_le_refl)
  then show ?case
    using Cons.IH [of "Get_step e m"] by (auto intro: entry_le_trans)
qed

lemma Get_loop_ub: "e \<in> set es \<Longrightarrow> entry_le e (Get_loop es m)"
proof (induction es arbitrary: m)
  case Nil
  then show ?case by simp
next
  case (Cons x es)
  show ?case
  proof (cases "e = x")
    case True
    have "entry_le x (Get_step x m)"
      using entry_le_total [of m x] by (auto simp: Get_step_max entry_le_refl)
    then show ?thesis
      using True Get_loop_ge_init [of "Get_step x m" es] by (auto intro: entry_le_trans)
  next
    case False
    then show ?thesis using Cons by auto
  qed
qed

lemma Get_loop_set_cong:
  assumes "set xs = set ys"
  shows "Get_loop xs m = Get_loop ys m"
proof (rule entry_le_antisym)
  show "entry_le (Get_loop xs m) (Get_loop ys m)"
    using Get_loop_mem [of xs m] Get_loop_ub [of _ ys m] Get_loop_ge_init [of m ys] assms by auto
  show "entry_le (Get_loop ys m) (Get_loop xs m)"
    using Get_loop_mem [of ys m] Get_loop_ub [of _ xs m] Get_loop_ge_init [of m xs] assms by auto
qed

lemma Get_set: "set (lookup a k) = set (lookup b k) \<Longrightarrow> Get a k = Get b k"
  using Get_loop_set_cong [of "lookup a k" "lookup b k"] by (simp add: Get_def)

lemma Get_same_entries: "same_entries a b \<Longrightarrow> Get a k = Get b k"
  by (rule Get_set) (simp add: same_entries_def)

subsection \<open>Reading a map after a write or a merge\<close>

lemma lookup_upd:
  "lookup (v\<lparr>vmap_values := (vmap_values v)(x \<mapsto> es)\<rparr>) k = (if k = x then es else lookup v k)"
  by (simp add: lookup_def)

lemma lookup_not_dom: "k \<notin> dom (vmap_values v) \<Longrightarrow> lookup v k = []"
  by (auto simp: lookup_def split: option.splits)

lemma lookup_New: "lookup NewVersionedMap k = []"
  by (simp add: NewVersionedMap_def lookup_def)

lemma lookup_SetVersion:
  "lookup (SetVersion v key value n) k =
     (if k = key then lookup v key @ [\<lparr>val = value, version = n\<rparr>] else lookup v k)"
  by (simp add: SetVersion_def lookup_def)

lemma lookup_UnSetVersion:
  "lookup (UnSetVersion v key n) k =
     (if k = key then lookup v key @ [\<lparr>val = [], version = n\<rparr>] else lookup v k)"
  by (simp add: UnSetVersion_def lookup_def)

lemma vmap_values_SetVersion:
  "vmap_values (SetVersion v key value n) =
     (vmap_values v)(key \<mapsto> lookup v key @ [\<lparr>val = value, version = n\<rparr>])"
  by (simp add: SetVersion_def)

lemma vmap_values_UnSetVersion:
  "vmap_values (UnSetVersion v key n) =
     (vmap_values v)(key \<mapsto> lookup v key @ [\<lparr>val = [], version = n\<rparr>])"
  by (simp add: UnSetVersion_def)

lemma lookup_Merge_loop:
  "distinct ks \<Longrightarrow>
   lookup (Merge_loop ks other v) k =
     (if k \<in> set ks then lookup v k @ lookup other k else lookup v k)"
proof (induction ks arbitrary: v)
  case Nil
  show ?case by simp
next
  case (Cons x ks)
  then show ?case by (simp add: lookup_upd)
qed

lemma lookup_Merge:
  "range_order (vmap_values other) ks \<Longrightarrow>
   lookup (Merge ks v other) k = lookup v k @ lookup other k"
  by (cases "k \<in> set ks") (auto simp: Merge_def range_order_def lookup_Merge_loop lookup_not_dom)

text \<open>
  C1. Two maps that hold the same entries for every key (in any order, with any number of
  copies of an entry) resolve every key to the same value; and at the level of the value a
  key resolves to, \<open>Merge\<close> is commutative, associative and idempotent, whatever order each
  range over a map takes.
\<close>

theorem cvm_convergence:
  assumes "range_order (vmap_values a) ka" and "range_order (vmap_values b) kb"
    and "range_order (vmap_values c) kc"
    and "range_order (vmap_values (Merge kc b c)) kbc"
  shows "(same_entries a b \<longrightarrow> Get a k = Get b k)
       \<and> Get (Merge kb a b) k = Get (Merge ka b a) k
       \<and> Get (Merge kc (Merge kb a b) c) k = Get (Merge kbc a (Merge kc b c)) k
       \<and> Get (Merge ka a a) k = Get a k
       \<and> Get (Merge kb (Merge kb a b) b) k = Get (Merge kb a b) k"
proof -
  have "Get (Merge kb a b) k = Get (Merge ka b a) k"
    by (rule Get_set) (simp add: lookup_Merge assms Un_commute)
  moreover have "Get (Merge kc (Merge kb a b) c) k = Get (Merge kbc a (Merge kc b c)) k"
    by (rule Get_set) (simp add: lookup_Merge assms)
  moreover have "Get (Merge ka a a) k = Get a k"
    by (rule Get_set) (simp add: lookup_Merge assms)
  moreover have "Get (Merge kb (Merge kb a b) b) k = Get (Merge kb a b) k"
    by (rule Get_set) (simp add: lookup_Merge assms Un_assoc)
  ultimately show ?thesis
    by (simp add: Get_same_entries)
qed

theorem cvm_convergence_witness:
  "range_order (vmap_values (SetVersion (SetVersion NewVersionedMap ''k'' ''a'' 1) ''k'' ''b'' 1)) [''k'']
   \<and> range_order (vmap_values (SetVersion (SetVersion (SetVersion NewVersionedMap ''k'' ''b'' 1) ''k'' ''a'' 1) ''k'' ''b'' 1)) [''k'']
   \<and> range_order (vmap_values (SetVersion NewVersionedMap ''j'' ''c'' 2)) [''j'']
   \<and> range_order (vmap_values (Merge [''j'']
         (SetVersion (SetVersion (SetVersion NewVersionedMap ''k'' ''b'' 1) ''k'' ''a'' 1) ''k'' ''b'' 1)
         (SetVersion NewVersionedMap ''j'' ''c'' 2))) [''j'', ''k'']
   \<and> same_entries (SetVersion (SetVersion NewVersionedMap ''k'' ''a'' 1) ''k'' ''b'' 1)
        (SetVersion (SetVersion (SetVersion NewVersionedMap ''k'' ''b'' 1) ''k'' ''a'' 1) ''k'' ''b'' 1)
   \<and> Get (SetVersion (SetVersion NewVersionedMap ''k'' ''a'' 1) ''k'' ''b'' 1) ''k''
     = Get (SetVersion (SetVersion (SetVersion NewVersionedMap ''k'' ''b'' 1) ''k'' ''a'' 1) ''k'' ''b'' 1) ''k''
   \<and> Get (SetVersion (SetVersion NewVersionedMap ''k'' ''a'' 1) ''k'' ''b'' 1) ''k'' = ''b''"
proof -
  let ?a = "SetVersion (SetVersion NewVersionedMap ''k'' ''a'' 1) ''k'' ''b'' 1"
  let ?b = "SetVersion (SetVersion (SetVersion NewVersionedMap ''k'' ''b'' 1) ''k'' ''a'' 1) ''k'' ''b'' 1"
  let ?c = "SetVersion NewVersionedMap ''j'' ''c'' 2"
  have ra: "range_order (vmap_values ?a) [''k'']"
    by (simp add: range_order_def vmap_values_SetVersion NewVersionedMap_def)
  have rb: "range_order (vmap_values ?b) [''k'']"
    by (simp add: range_order_def vmap_values_SetVersion NewVersionedMap_def)
  have rc: "range_order (vmap_values ?c) [''j'']"
    by (simp add: range_order_def vmap_values_SetVersion NewVersionedMap_def)
  have rbc: "range_order (vmap_values (Merge [''j''] ?b ?c)) [''j'', ''k'']"
    by (auto simp: range_order_def Merge_def vmap_values_SetVersion NewVersionedMap_def)
  have se: "same_entries ?a ?b"
    by (auto simp: same_entries_def lookup_SetVersion lookup_New)
  have g: "Get ?a ''k'' = ''b''"
    by (simp add: Get_def lookup_SetVersion lookup_New Get_step_def lt64_def)
  from cvm_convergence [OF ra rb rc rbc, of "''k''"] ra rb rc rbc se g show ?thesis
    by simp
qed


subsection \<open>Which entry wins\<close>

lemma entry_le_zero_val: "entry_le e \<lparr>val = [], version = 0\<rparr> \<Longrightarrow> 0 \<le> sint (version e) \<Longrightarrow> e = \<lparr>val = [], version = 0\<rparr>"
  by (auto simp: entry_le_def)

text \<open>
  C4 (as the code has it). A key with no entries resolves to the empty string. A key with at
  least one entry of version 0 or more resolves to the value of an entry of highest version
  whose value is the greatest among the entries of that version.
\<close>

theorem Get_highest_version:
  "(lookup v key = [] \<longrightarrow> Get v key = [])
   \<and> ((\<exists>e \<in> set (lookup v key). 0 \<le> sint (version e)) \<longrightarrow>
        (\<exists>e \<in> set (lookup v key).
            (\<forall>e' \<in> set (lookup v key).
                ge64 (version e) (version e') \<and> (version e' = version e \<longrightarrow> val e' \<le> val e))
            \<and> Get v key = val e))"
proof (intro conjI impI)
  assume "lookup v key = []"
  then show "Get v key = []" by (simp add: Get_def)
next
  let ?z = "\<lparr>val = [], version = 0\<rparr> :: mapEntry"
  let ?r = "Get_loop (lookup v key) ?z"
  assume "\<exists>e \<in> set (lookup v key). 0 \<le> sint (version e)"
  then obtain e0 where e0: "e0 \<in> set (lookup v key)" "0 \<le> sint (version e0)" by blast
  have mem: "?r \<in> set (lookup v key)"
  proof (cases "?r = ?z")
    case True
    then have "entry_le e0 ?z" using Get_loop_ub [OF e0(1), of ?z] by simp
    then have "e0 = ?z" using e0(2) by (rule entry_le_zero_val)
    then show ?thesis using True e0(1) by simp
  next
    case False
    then show ?thesis using Get_loop_mem [of "lookup v key" ?z] by auto
  qed
  have ub: "\<forall>e' \<in> set (lookup v key).
      ge64 (version ?r) (version e') \<and> (version e' = version ?r \<longrightarrow> val e' \<le> val ?r)"
  proof
    fix e' assume "e' \<in> set (lookup v key)"
    then have "entry_le e' ?r" by (rule Get_loop_ub)
    then show "ge64 (version ?r) (version e') \<and> (version e' = version ?r \<longrightarrow> val e' \<le> val ?r)"
      by (auto simp: entry_le_def ge64_def)
  qed
  show "\<exists>e \<in> set (lookup v key).
            (\<forall>e' \<in> set (lookup v key).
                ge64 (version e) (version e') \<and> (version e' = version e \<longrightarrow> val e' \<le> val e))
            \<and> Get v key = val e"
    using mem ub by (auto simp: Get_def)
qed

theorem Get_highest_version_witness:
  "lookup (SetVersion (UnSetVersion (SetVersion NewVersionedMap ''k'' ''x'' 1) ''k'' 1) ''k'' ''old'' 0) ''k''
     = [\<lparr>val = ''x'', version = 1\<rparr>, \<lparr>val = [], version = 1\<rparr>, \<lparr>val = ''old'', version = 0\<rparr>]
   \<and> Get (SetVersion (UnSetVersion (SetVersion NewVersionedMap ''k'' ''x'' 1) ''k'' 1) ''k'' ''old'' 0) ''k'' = ''x''
   \<and> Get NewVersionedMap ''k'' = []"
proof -
  let ?v = "SetVersion (UnSetVersion (SetVersion NewVersionedMap ''k'' ''x'' 1) ''k'' 1) ''k'' ''old'' 0"
  have l: "lookup ?v ''k'' = [\<lparr>val = ''x'', version = 1\<rparr>, \<lparr>val = [], version = 1\<rparr>, \<lparr>val = ''old'', version = 0\<rparr>]"
    by (simp add: lookup_SetVersion lookup_UnSetVersion lookup_New)
  have "\<exists>e \<in> set (lookup ?v ''k'').
            (\<forall>e' \<in> set (lookup ?v ''k'').
                ge64 (version e) (version e') \<and> (version e' = version e \<longrightarrow> val e' \<le> val e))
            \<and> Get ?v ''k'' = val e"
    using Get_highest_version [of ?v "''k''"] l by simp
  then have "Get ?v ''k'' = ''x''"
    unfolding l by (auto simp: ge64_def)
  moreover have "Get NewVersionedMap ''k'' = []"
    using Get_highest_version [of NewVersionedMap "''k''"] by (simp add: lookup_New)
  ultimately show ?thesis using l by simp
qed

text \<open>
  A key whose only entry is \<open>("x", -1)\<close>: the entry of highest version has value \<open>x\<close>, and
  \<open>Get\<close> returns the empty string.
\<close>

theorem Get_highest_version_counterexample:
  "lookup (SetVersion NewVersionedMap ''k'' ''x'' (-1)) ''k'' = [\<lparr>val = ''x'', version = -1\<rparr>]
   \<and> Get (SetVersion NewVersionedMap ''k'' ''x'' (-1)) ''k'' = []
   \<and> Get (SetVersion NewVersionedMap ''k'' ''x'' (-1)) ''k'' \<noteq> ''x''"
  by (simp add: Get_def lookup_SetVersion lookup_New Get_step_def lt64_def)

text \<open>
  C10. A key all of whose entries have a negative version resolves to the empty string,
  however many entries it has. Entries at version 0 stay eligible: when no entry has a positive
  version, the key resolves to the greatest value among its entries at version 0.
\<close>

theorem Get_negative_versions:
  "((\<forall>e \<in> set (lookup v key). sint (version e) < 0) \<longrightarrow> Get v key = [])
   \<and> ((\<forall>e \<in> set (lookup v key). sint (version e) \<le> 0) \<longrightarrow>
        (\<forall>e \<in> set (lookup v key). version e = 0 \<longrightarrow>
           val e \<le> Get v key
           \<and> (\<exists>e' \<in> set (lookup v key). version e' = 0 \<and> Get v key = val e')))"
proof (intro conjI impI ballI)
  let ?z = "\<lparr>val = [], version = 0\<rparr> :: mapEntry"
  let ?r = "Get_loop (lookup v key) ?z"
  assume neg: "\<forall>e \<in> set (lookup v key). sint (version e) < 0"
  have "?r = ?z"
  proof (rule ccontr)
    assume "?r \<noteq> ?z"
    then have "?r \<in> set (lookup v key)" using Get_loop_mem [of "lookup v key" ?z] by auto
    then have "sint (version ?r) < 0" using neg by blast
    moreover have "entry_le ?z ?r" by (rule Get_loop_ge_init)
    ultimately show False by (auto simp: entry_le_def)
  qed
  then show "Get v key = []" by (simp add: Get_def)
next
  let ?z = "\<lparr>val = [], version = 0\<rparr> :: mapEntry"
  let ?r = "Get_loop (lookup v key) ?z"
  fix e
  assume le: "\<forall>e \<in> set (lookup v key). sint (version e) \<le> 0"
    and e: "e \<in> set (lookup v key)" and e0: "version e = 0"
  have zr: "entry_le ?z ?r" by (rule Get_loop_ge_init)
  have er: "entry_le e ?r" using e by (rule Get_loop_ub)
  have mem: "?r \<in> set (lookup v key)"
    using Get_loop_mem [of "lookup v key" ?z] Get_loop_ub [OF e, of ?z] e e0
      entry_le_zero_val [of e]
    by (cases "?r = ?z") auto
  then have "sint (version ?r) \<le> 0" using le by blast
  then have v0: "version ?r = 0" using zr by (auto simp: entry_le_def)
  then have "val e \<le> val ?r" using er e0 by (auto simp: entry_le_def)
  then show "val e \<le> Get v key" by (simp add: Get_def)
  show "\<exists>e' \<in> set (lookup v key). version e' = 0 \<and> Get v key = val e'"
    using mem v0 by (auto simp: Get_def)
qed

theorem Get_negative_versions_witness:
  "lookup (SetVersion NewVersionedMap ''k'' ''x'' (-1)) ''k'' = [\<lparr>val = ''x'', version = -1\<rparr>]
   \<and> Get (SetVersion NewVersionedMap ''k'' ''x'' (-1)) ''k'' = []
   \<and> lookup (SetVersion (SetVersion NewVersionedMap ''k'' ''x'' (-1)) ''k'' ''y'' 0) ''k''
       = [\<lparr>val = ''x'', version = -1\<rparr>, \<lparr>val = ''y'', version = 0\<rparr>]
   \<and> Get (SetVersion (SetVersion NewVersionedMap ''k'' ''x'' (-1)) ''k'' ''y'' 0) ''k'' = ''y''"
proof -
  let ?v = "SetVersion NewVersionedMap ''k'' ''x'' (-1)"
  let ?w = "SetVersion ?v ''k'' ''y'' 0"
  have l: "lookup ?v ''k'' = [\<lparr>val = ''x'', version = -1\<rparr>]"
    by (simp add: lookup_SetVersion lookup_New)
  have lw: "lookup ?w ''k'' = [\<lparr>val = ''x'', version = -1\<rparr>, \<lparr>val = ''y'', version = 0\<rparr>]"
    by (simp add: lookup_SetVersion lookup_New)
  have h1: "\<forall>e \<in> set (lookup ?v ''k''). sint (version e) < 0"
    unfolding l by simp
  have h2: "\<forall>e \<in> set (lookup ?w ''k''). sint (version e) \<le> 0"
    unfolding lw by simp
  have g1: "Get ?v ''k'' = []"
    using Get_negative_versions [of ?v "''k''"] h1 by blast
  have "\<exists>e' \<in> set (lookup ?w ''k''). version e' = 0 \<and> Get ?w ''k'' = val e'"
    using Get_negative_versions [of ?w "''k''"] h2 unfolding lw by simp
  then have g2: "Get ?w ''k'' = ''y''"
    unfolding lw by auto
  show ?thesis using l lw g1 g2 by simp
qed


subsection \<open>Versions of local writes\<close>

lemma sint_plus_one: "sint (x::int64) < 9223372036854775807 \<Longrightarrow> sint (x + 1) = sint x + 1"
proof -
  assume a: "sint x < 9223372036854775807"
  have lo: "- (2 ^ 63) \<le> sint x" using sint_ge [of x] by simp
  have "sint (x + 1) = signed_take_bit 63 (sint x + 1)"
    by (simp add: sint_word_ariths)
  also have "\<dots> = sint x + 1"
    using a lo by (intro signed_take_bit_int_eq_self) auto
  finally show ?thesis .
qed

lemma currentVersion_loop_ge_init: "sint n \<le> sint (currentVersion_loop es n)"
proof (induction es arbitrary: n)
  case Nil
  show ?case by simp
next
  case (Cons e es)
  show ?case
    using Cons.IH [of "version e"] Cons.IH [of n] by (auto simp: lt64_def)
qed

lemma currentVersion_loop_ub:
  "e \<in> set es \<Longrightarrow> sint (version e) \<le> sint (currentVersion_loop es n)"
proof (induction es arbitrary: n)
  case Nil
  then show ?case by simp
next
  case (Cons x es)
  show ?case
  proof (cases "e = x")
    case True
    then show ?thesis
      using currentVersion_loop_ge_init [of "version x" es] currentVersion_loop_ge_init [of n es]
      by (auto simp: lt64_def)
  next
    case False
    then show ?thesis using Cons by auto
  qed
qed

lemma currentVersion_loop_mem:
  "currentVersion_loop es n = n \<or> (\<exists>e \<in> set es. currentVersion_loop es n = version e)"
proof (induction es arbitrary: n)
  case Nil
  show ?case by simp
next
  case (Cons x es)
  show ?case
    using Cons.IH [of "version x"] Cons.IH [of n] by auto
qed

lemma currentVersion_nonneg: "0 \<le> sint (currentVersion v key)"
  using currentVersion_loop_ge_init [of 0 "lookup v key"] by (simp add: currentVersion_def)

lemma currentVersion_ub: "e \<in> set (lookup v key) \<Longrightarrow> sint (version e) \<le> sint (currentVersion v key)"
  by (simp add: currentVersion_def currentVersion_loop_ub)

lemma currentVersion_mem:
  "currentVersion v key = 0 \<or> (\<exists>e \<in> set (lookup v key). currentVersion v key = version e)"
  using currentVersion_loop_mem [of "lookup v key" 0] by (simp add: currentVersion_def)

text \<open>
  C3 (as the code has it). \<open>Set\<close> and \<open>UnSet\<close> append one entry to the key, at
  \<open>currentVersion(key) + 1\<close>; when no entry of the key is at the greatest \<open>int64\<close>, that
  version is strictly greater than the version of every entry the key already has.
\<close>

theorem Set_version_above_key_history:
  assumes "\<forall>e \<in> set (lookup v key). sint (version e) < 9223372036854775807"
  shows "lookup (Set v key value) key = lookup v key @ [\<lparr>val = value, version = nextVersion v key\<rparr>]
       \<and> lookup (UnSet v key) key = lookup v key @ [\<lparr>val = [], version = nextVersion v key\<rparr>]
       \<and> (\<forall>e \<in> set (lookup v key). lt64 (version e) (nextVersion v key))
       \<and> lt64 (currentVersion v key) (nextVersion v key)"
proof -
  have "sint (currentVersion v key) < 9223372036854775807"
    using currentVersion_mem [of v key] assms by auto
  then have nx: "sint (nextVersion v key) = sint (currentVersion v key) + 1"
    unfolding nextVersion_def by (rule sint_plus_one)
  have "\<forall>e \<in> set (lookup v key). lt64 (version e) (nextVersion v key)"
  proof
    fix e assume "e \<in> set (lookup v key)"
    then show "lt64 (version e) (nextVersion v key)"
      using currentVersion_ub [of e v key] nx by (simp add: lt64_def)
  qed
  then show ?thesis
    using nx by (simp add: Set_def UnSet_def lookup_SetVersion lookup_UnSetVersion lt64_def)
qed

lemma currentVersion_eval:
  "currentVersion (SetVersion NewVersionedMap k x n) k = (if lt64 0 n then n else 0)"
  by (simp add: currentVersion_def lookup_SetVersion lookup_New)

theorem Set_version_above_key_history_witness:
  "lookup (SetVersion NewVersionedMap ''k'' ''x'' 7) ''k'' = [\<lparr>val = ''x'', version = 7\<rparr>]
   \<and> lookup (Set (SetVersion NewVersionedMap ''k'' ''x'' 7) ''k'' ''y'') ''k''
       = [\<lparr>val = ''x'', version = 7\<rparr>, \<lparr>val = ''y'', version = 8\<rparr>]
   \<and> lt64 7 (nextVersion (SetVersion NewVersionedMap ''k'' ''x'' 7) ''k'')"
proof -
  let ?v = "SetVersion NewVersionedMap ''k'' ''x'' 7"
  have l: "lookup ?v ''k'' = [\<lparr>val = ''x'', version = 7\<rparr>]"
    by (simp add: lookup_SetVersion lookup_New)
  have h: "\<forall>e \<in> set (lookup ?v ''k''). sint (version e) < 9223372036854775807"
    unfolding l by simp
  have n: "nextVersion ?v ''k'' = 8"
    by (simp add: nextVersion_def currentVersion_eval lt64_def)
  show ?thesis
    using Set_version_above_key_history [OF h, of "''y''"] unfolding l n by simp
qed

text \<open>
  With key \<open>a\<close> at version 5, \<open>LatestVersion\<close> is 5 and a \<open>Set\<close> on the fresh key \<open>b\<close> writes
  version 1. With a key at the greatest \<open>int64\<close>, the next version wraps to the least one.
\<close>

theorem Set_version_counterexample:
  "LatestVersion [''a''] (SetVersion NewVersionedMap ''a'' ''x'' 5) = 5
   \<and> lookup (Set (SetVersion NewVersionedMap ''a'' ''x'' 5) ''b'' ''y'') ''b'' = [\<lparr>val = ''y'', version = 1\<rparr>]
   \<and> \<not> lt64 5 1
   \<and> lookup (Set (SetVersion NewVersionedMap ''k'' ''x'' 9223372036854775807) ''k'' ''y'') ''k''
       = [\<lparr>val = ''x'', version = 9223372036854775807\<rparr>, \<lparr>val = ''y'', version = - 9223372036854775808\<rparr>]
   \<and> \<not> lt64 9223372036854775807 (- 9223372036854775808)"
  by (simp add: LatestVersion_def Set_def nextVersion_def currentVersion_def
      lookup_SetVersion lookup_New lt64_def)

end
